theory Spec2Isabelle
  imports Complex_Main "HOL-Library.Sublist"
begin

section \<open>Commands (cmd.go)\<close>

text \<open>
  The struct \<^verbatim>\<open>Cmd\<close>. Go's \<^verbatim>\<open>int\<close> and \<^verbatim>\<open>int64\<close> fields are only compared and
  copied by the functions below, never computed with, so they are \<open>int\<close>.
  The field \<^verbatim>\<open>Id\<close> is \<open>Id_cmd\<close> (\<open>Id\<close> is the identity relation of HOL).
\<close>

record Cmd =
  Command :: string
  Pending :: bool
  Id_cmd :: string
  ClientId :: string
  TemplateId :: string
  ConsensusRequestId :: string
  Signature :: string
  Timeout :: int
  state :: string
  RequestUserId :: string
  Created :: int
  ExecutionIterationId :: int
  BufOutput :: "string list"
  BufOutputErr :: "string list"

text \<open>The struct \<^verbatim>\<open>ExecutionValidation\<close> (execution_validation.go).\<close>

record ExecutionValidation =
  Id_rule :: string
  Fatal :: bool
  MustContain :: bool
  OutputStream :: int
  Text :: string

text \<open>
  Types declared elsewhere in the repository, with the fields the functions below read:
  a template (its ordered validation rules), an entry of the execution coordinator, the
  configuration, and the agent-side client object.
\<close>

record Template =
  ValidationRules :: "ExecutionValidation list"

record ExecutionCoordinatorEntry =
  Id_ece :: string
  iteration :: int

record Conf =
  Debug :: bool
  ServerEnabled :: bool

record Client =
  Id_client :: string
  AuthToken_client :: string

text \<open>
  The process-wide variables \<^verbatim>\<open>conf\<close>, \<^verbatim>\<open>server.templateStore\<close>,
  \<^verbatim>\<open>server.executionCoordinator\<close> and \<^verbatim>\<open>client\<close> that the methods of \<^verbatim>\<open>Cmd\<close> read.
  A store's \<^verbatim>\<open>Get\<close> is a lookup that answers \<^verbatim>\<open>nil\<close> (here \<open>None\<close>) for an unknown id.
\<close>

record Globals =
  conf :: Conf
  templateStore :: "string \<rightharpoonup> Template"
  executionCoordinator :: "string \<rightharpoonup> ExecutionCoordinatorEntry"
  client :: Client

text \<open>
  Library functions the code calls, taken as parameters: base64 URL decoding (which can
  fail) and encoding, HMAC-SHA256 of a message under a key, and \<^verbatim>\<open>json.Marshal\<close> of the
  two log buffers.
\<close>

record Stdlib =
  base64_DecodeString :: "string \<Rightarrow> string option"
  base64_EncodeToString :: "string \<Rightarrow> string"
  hmac_sha256 :: "string \<Rightarrow> string \<Rightarrow> string"
  json_Marshal :: "string list \<Rightarrow> string list \<Rightarrow> string option"

text \<open>
  What a method does beyond changing the command: the goroutine \<^verbatim>\<open>go ece.Next()\<close> for a
  coordinator entry, the HTTP requests of the agent (state and logs of a command, by
  client id and command id), the re-authentication, and the steps around the shell
  script.
\<close>

datatype effect =
    Next_started string
  | Put_state string string string
  | Put_logs string string string
  | AuthServer
  | WriteFile string
  | Start_bash
  | Kill_process
  | Remove_file

subsection \<open>Validation of the output\<close>

text \<open>\<^verbatim>\<open>strings.Contains(line, txt)\<close>: \<open>txt\<close> occurs in \<open>line\<close> as a contiguous substring.\<close>

fun strings_Contains :: "string \<Rightarrow> string \<Rightarrow> bool" where
  "strings_Contains [] txt = (txt = [])"
| "strings_Contains (c # cs) txt = (prefix txt (c # cs) \<or> strings_Contains cs txt)"

text \<open>The inner loop of \<^verbatim>\<open>_validate\<close>: some line of the stream contains the text.\<close>

fun matched_line :: "string list \<Rightarrow> string \<Rightarrow> bool" where
  "matched_line [] txt = False"
| "matched_line (line # rest) txt =
     (if strings_Contains line txt then True else matched_line rest txt)"

definition select_stream :: "Cmd \<Rightarrow> ExecutionValidation \<Rightarrow> string list" where
  "select_stream c v = (if OutputStream v = 1 then BufOutput c else BufOutputErr c)"

text \<open>
  The outer loop of \<^verbatim>\<open>_validate\<close> over the template's rules, in their order; its result
  is the variable \<^verbatim>\<open>failedValidation\<close>. The loop stops at the first rule that fails.
\<close>

fun failedValidation :: "Cmd \<Rightarrow> ExecutionValidation list \<Rightarrow> bool" where
  "failedValidation c [] = False"
| "failedValidation c (v # vs) =
     (let matched = matched_line (select_stream c v) (Text v) in
      if MustContain v = True \<and> matched = False then True
      else if MustContain v = False \<and> matched = True then True
      else failedValidation c vs)"

subsection \<open>State changes\<close>

text \<open>
  \<^verbatim>\<open>SetState\<close> and \<^verbatim>\<open>_validate\<close> call each other. \<^verbatim>\<open>_validate\<close> sets the state
  \<^verbatim>\<open>failed_validation\<close> inside its loop, at the rule that fails and right before the
  \<^verbatim>\<open>break\<close>; here the loop computes \<open>failedValidation\<close> first and the state is set after
  it, which is the same sequence of steps.
\<close>

function SetState :: "Globals \<Rightarrow> Cmd \<Rightarrow> string \<Rightarrow> Cmd \<times> effect list"
  and Cmd_validate :: "Globals \<Rightarrow> Cmd \<Rightarrow> Cmd \<times> effect list" where
  "SetState g c st =
     (let oldState = state c; c1 = c\<lparr>state := st\<rparr> in
      if oldState = ''finished_execution'' \<and> state c1 = ''flushed_logs'' then Cmd_validate g c1
      else if oldState = ''failed_execution'' \<and> state c1 = ''flushed_logs''
        then (c1\<lparr>state := ''failed''\<rparr>, [])
      else (c1, []))"
| "Cmd_validate g c =
     (if \<not> ServerEnabled (conf g) then (c, [])
      else case templateStore g (TemplateId c) of
        None \<Rightarrow> (c, [])
      | Some template \<Rightarrow>
          if failedValidation c (ValidationRules template)
          then SetState g c ''failed_validation''
          else (let (c1, es) = SetState g c ''finished'' in
                case executionCoordinator g (ConsensusRequestId c1) of
                  None \<Rightarrow> (c1, es)
                | Some ece \<Rightarrow> (c1, es @ [Next_started (Id_ece ece)])))"
  by pat_completeness auto
termination
  by (relation "measure (\<lambda>x. case x of
        Inl (g, c, st) \<Rightarrow> (if state c = ''finished_execution'' \<and> st = ''flushed_logs'' then 2 else 0)
      | Inr (g, c) \<Rightarrow> (1::nat))") auto

declare SetState.simps [simp del] Cmd_validate.simps [simp del]

subsection \<open>Reporting state and logs to the coordinator\<close>

text \<open>
  \<^verbatim>\<open>NotifyServer\<close>: the local state change, then the request to the coordinator when the
  command carries a signature. The request goes through the process-wide \<^verbatim>\<open>client\<close>.
\<close>

definition NotifyServer :: "Globals \<Rightarrow> Cmd \<Rightarrow> string \<Rightarrow> Cmd \<times> effect list" where
  "NotifyServer g c st =
     (let (c1, es) = SetState g c st in
      if length (Signature c1) > 0
      then (c1, es @ [Put_state (Id_client (client g)) (Id_cmd c1) st])
      else (c1, es))"

text \<open>
  \<^verbatim>\<open>_flushLogs\<close>: nothing without a signature, nothing when the JSON encoding fails;
  otherwise one request with both buffers, and both buffers are emptied whatever the
  request answers.
\<close>

definition Cmd_flushLogs :: "Globals \<Rightarrow> Stdlib \<Rightarrow> Cmd \<Rightarrow> Cmd \<times> effect list" where
  "Cmd_flushLogs g lib c =
     (if length (Signature c) < 1 then (c, [])
      else case json_Marshal lib (BufOutput c) (BufOutputErr c) of
        None \<Rightarrow> (c, [])
      | Some bytes \<Rightarrow>
          (c\<lparr>BufOutput := [], BufOutputErr := []\<rparr>,
           [Put_logs (Id_client (client g)) (Id_cmd c) bytes]))"

definition Cmd_checkFlushLogs :: "Globals \<Rightarrow> Stdlib \<Rightarrow> Cmd \<Rightarrow> Cmd \<times> effect list" where
  "Cmd_checkFlushLogs g lib c =
     (if length (BufOutput c) > 10 \<or> length (BufOutputErr c) > 10
      then Cmd_flushLogs g lib c
      else (c, []))"

definition LogOutput :: "Globals \<Rightarrow> Stdlib \<Rightarrow> Cmd \<Rightarrow> string \<Rightarrow> Cmd \<times> effect list" where
  "LogOutput g lib c line = Cmd_checkFlushLogs g lib (c\<lparr>BufOutput := BufOutput c @ [line]\<rparr>)"

definition LogError :: "Globals \<Rightarrow> Stdlib \<Rightarrow> Cmd \<Rightarrow> string \<Rightarrow> Cmd \<times> effect list" where
  "LogError g lib c line =
     Cmd_checkFlushLogs g lib (c\<lparr>BufOutputErr := BufOutputErr c @ [line]\<rparr>)"

text \<open>The two loops at the end of \<^verbatim>\<open>Execute\<close>: one call per line, effects in order.\<close>

fun log_lines :: "(Cmd \<Rightarrow> string \<Rightarrow> Cmd \<times> effect list) \<Rightarrow> Cmd \<Rightarrow> string list
    \<Rightarrow> Cmd \<times> effect list" where
  "log_lines logf c [] = (c, [])"
| "log_lines logf c (line # rest) =
     (let (c1, es1) = logf c line; (c2, es2) = log_lines logf c1 rest in (c2, es1 @ es2))"

text \<open>\<^verbatim>\<open>strings.Split(s, "\n")\<close>: the pieces between line feeds; one empty piece for \<open>''''\<close>.\<close>

fun Split_lf :: "string \<Rightarrow> string list" where
  "Split_lf [] = [[]]"
| "Split_lf (ch # cs) =
     (if ch = CHR 0x0A then [] # Split_lf cs
      else (case Split_lf cs of [] \<Rightarrow> [[ch]] | piece # pieces \<Rightarrow> (ch # piece) # pieces))"

subsection \<open>Signature and execution on the agent\<close>

text \<open>\<^verbatim>\<open>ComputeHmac\<close>: the empty string when the token is not base64.\<close>

definition ComputeHmac :: "Stdlib \<Rightarrow> Cmd \<Rightarrow> string \<Rightarrow> string" where
  "ComputeHmac lib c token =
     (case base64_DecodeString lib token of
        None \<Rightarrow> []
      | Some bytes \<Rightarrow> base64_EncodeToString lib (hmac_sha256 lib bytes (Command c @ Id_cmd c)))"

text \<open>
  How the operating system answers \<^verbatim>\<open>Execute\<close>: the process does not start; the timeout
  passes and the kill fails, or succeeds; the process ends with an error, or without.
  Where the code goes on to read them, the outcome carries what the process wrote to its
  standard output and standard error (and the text of the error).
\<close>

datatype outcome =
    Start_failed
  | Timeout_kill_failed
  | Timeout_killed string string
  | Done_error string string string
  | Done_ok string string

text \<open>The end of \<^verbatim>\<open>Execute\<close>, after the \<^verbatim>\<open>select\<close>: both outputs line by line, the final
  flush, the state \<^verbatim>\<open>flushed_logs\<close>.\<close>

definition Execute_logs :: "Globals \<Rightarrow> Stdlib \<Rightarrow> Cmd \<Rightarrow> string \<Rightarrow> string
    \<Rightarrow> Cmd \<times> effect list" where
  "Execute_logs g lib c out outerr =
     (let (c1, es1) = log_lines (LogOutput g lib) c (Split_lf out);
          (c2, es2) = log_lines (LogError g lib) c1 (Split_lf outerr);
          (c3, es3) = Cmd_flushLogs g lib c2;
          (c4, es4) = NotifyServer g c3 ''flushed_logs''
      in (c4, es1 @ es2 @ es3 @ es4))"

text \<open>
  \<^verbatim>\<open>Execute\<close> from \<^verbatim>\<open>cmd.Start()\<close> on. The deferred \<^verbatim>\<open>os.Remove\<close> runs on every way
  out.
\<close>

definition Execute_run :: "Globals \<Rightarrow> Stdlib \<Rightarrow> outcome \<Rightarrow> Cmd \<Rightarrow> Cmd \<times> effect list" where
  "Execute_run g lib oc c =
     (case oc of
        Start_failed \<Rightarrow>
          (let (c1, es1) = NotifyServer g c ''failed_execution''
           in (c1, [Start_bash] @ es1 @ [Remove_file]))
      | Timeout_kill_failed \<Rightarrow>
          (let (c1, es1) = NotifyServer g c ''started_execution''
           in (c1, [Start_bash] @ es1 @ [Kill_process, Remove_file]))
      | Timeout_killed out outerr \<Rightarrow>
          (let (c1, es1) = NotifyServer g c ''started_execution'';
               (c2, es2) = NotifyServer g c1 ''killed_execution'';
               (c3, es3) = Execute_logs g lib c2 out outerr
           in (c3, [Start_bash] @ es1 @ [Kill_process] @ es2 @ es3 @ [Remove_file]))
      | Done_error err out outerr \<Rightarrow>
          (let (c1, es1) = NotifyServer g c ''started_execution'';
               (c2, es2) = NotifyServer g c1 ''failed_execution'';
               (c3, es3) = LogError g lib c2 err;
               (c4, es4) = Execute_logs g lib c3 out outerr
           in (c4, [Start_bash] @ es1 @ es2 @ es3 @ es4 @ [Remove_file]))
      | Done_ok out outerr \<Rightarrow>
          (let (c1, es1) = NotifyServer g c ''started_execution'';
               (c2, es2) = NotifyServer g c1 ''finished_execution'';
               (c3, es3) = Execute_logs g lib c2 out outerr
           in (c3, [Start_bash] @ es1 @ es2 @ es3 @ [Remove_file])))"

text \<open>
  \<^verbatim>\<open>Execute(client)\<close>; \<open>None\<close> is the \<^verbatim>\<open>nil\<close> client. The script is the shebang line
  followed by the command text.
\<close>

definition signature_invalid :: "Stdlib \<Rightarrow> Client \<Rightarrow> Cmd \<Rightarrow> bool" where
  "signature_invalid lib cl c =
     (let expectedMac = ComputeHmac lib c (AuthToken_client cl)
      in expectedMac \<noteq> Signature c \<or> length (Signature c) < 1)"

definition Execute :: "Globals \<Rightarrow> Stdlib \<Rightarrow> Client option \<Rightarrow> outcome \<Rightarrow> Cmd
    \<Rightarrow> Cmd \<times> effect list" where
  "Execute g lib cl oc c =
     (let (c1, es1) = NotifyServer g c ''validating'' in
      if (case cl of None \<Rightarrow> False | Some k \<Rightarrow> signature_invalid lib k c1)
      then (let (c2, es2) = NotifyServer g c1 ''invalid_signature''
            in (c2, es1 @ es2 @ [AuthServer]))
      else (let (c2, es2) = NotifyServer g c1 ''starting'';
                (c3, es3) = Execute_run g lib oc c2
            in (c3, es1 @ es2 @ [WriteFile (''#!/bin/bash'' @ [CHR 0x0A] @ Command c2)] @ es3)))"

subsection \<open>Creating a command\<close>

text \<open>
  \<^verbatim>\<open>newCmd\<close>. The constant \<^verbatim>\<open>DEFAULT_COMMAND_TIMEOUT\<close> is declared elsewhere in
  the repository and is a parameter, as are the results of \<^verbatim>\<open>uuidStr()\<close> and
  \<^verbatim>\<open>time.Now().Unix()\<close>. The fields the literal does not name have Go's zero values.
\<close>

definition newCmd :: "int \<Rightarrow> string \<Rightarrow> int \<Rightarrow> string \<Rightarrow> int \<Rightarrow> Cmd" where
  "newCmd DEFAULT_COMMAND_TIMEOUT uuid now command timeout =
     (let timeout1 = (if timeout < 1 then DEFAULT_COMMAND_TIMEOUT else timeout) in
      \<lparr>Command = command, Pending = True, Id_cmd = uuid, ClientId = [], TemplateId = [],
       ConsensusRequestId = [], Signature = [], Timeout = timeout1, state = ''pending'',
       RequestUserId = [], Created = now, ExecutionIterationId = 0,
       BufOutput = [], BufOutputErr = []\<rparr>)"

section \<open>Validation rules (execution_validation.go)\<close>

text \<open>
  \<^verbatim>\<open>newExecutionValidation\<close>; \<open>None\<close> is the \<^verbatim>\<open>nil\<close> it returns for a stream other than
  1 and 2 and for an empty text. The result of \<^verbatim>\<open>uuid.NewV4()\<close> is a parameter.
\<close>

definition newExecutionValidation :: "string \<Rightarrow> string \<Rightarrow> bool \<Rightarrow> bool \<Rightarrow> int
    \<Rightarrow> ExecutionValidation option" where
  "newExecutionValidation uuid txt fatal mustContain outputStream =
     (if outputStream \<noteq> 1 \<and> outputStream \<noteq> 2 then None
      else if length txt < 1 then None
      else Some \<lparr>Id_rule = uuid, Fatal = True, MustContain = True, OutputStream = 1,
                 Text = txt\<rparr>)"

section \<open>Registered clients (server.go)\<close>

text \<open>
  The maps of a registered client hold pointers to commands, and \<^verbatim>\<open>Submit\<close> stores one
  pointer in both maps. So the commands live in a store, from pointers to commands, and
  the maps hold pointers. \<^verbatim>\<open>LastPing\<close> and the current time are instants in
  nanoseconds. A \<^verbatim>\<open>nil\<close> tag slice and an empty one are both \<open>[]\<close>. The channel
  \<^verbatim>\<open>CmdChan\<close> is not a field here: what is sent on it is the \<open>Signalled\<close> case of the
  long poll below. Each registered client is referenced from its entry of the agent store
  only, so the store holds the clients themselves.
\<close>

type_synonym cmd_ptr = nat

type_synonym cmd_store = "cmd_ptr \<Rightarrow> Cmd"

record RegisteredClient =
  ClientId_rc :: string
  AuthToken :: string
  LastPing :: int
  Tags :: "string list"
  DispatchedCmds :: "string \<rightharpoonup> cmd_ptr"
  Cmds :: "string \<rightharpoonup> cmd_ptr"

record ConsensusRequest =
  Id_req :: string

definition newRegisteredClient :: "string \<Rightarrow> RegisteredClient" where
  "newRegisteredClient clientId =
     \<lparr>ClientId_rc = clientId, AuthToken = [], LastPing = 0, Tags = [],
      DispatchedCmds = Map.empty, Cmds = Map.empty\<rparr>"

text \<open>
  \<^verbatim>\<open>Submit\<close>, under the client's lock. After it the code writes the audit log and sends
  on \<^verbatim>\<open>CmdChan\<close>.
\<close>

definition Submit :: "cmd_store \<Rightarrow> cmd_ptr \<Rightarrow> RegisteredClient \<Rightarrow> RegisteredClient" where
  "Submit h cmd rc =
     (let rc1 = rc\<lparr>Cmds := (Cmds rc)(Id_cmd (h cmd) \<mapsto> cmd)\<rparr>
      in rc1\<lparr>DispatchedCmds := (DispatchedCmds rc1)(Id_cmd (h cmd) \<mapsto> cmd)\<rparr>)"

text \<open>
  A \<^verbatim>\<open>range\<close> over a Go map visits every key once, in an order the language leaves
  open. A loop over a map therefore takes the order as a list of keys; a key whose entry
  is gone when the loop reaches it is skipped, as Go does for an entry deleted during the
  loop.

  \<^verbatim>\<open>AbortExecution\<close>: the loop deletes the entry it is visiting when the command belongs
  to the request.
\<close>

fun abort_loop :: "cmd_store \<Rightarrow> string \<Rightarrow> string list \<Rightarrow> (string \<rightharpoonup> cmd_ptr)
    \<Rightarrow> (string \<rightharpoonup> cmd_ptr)" where
  "abort_loop h reqId [] m = m"
| "abort_loop h reqId (k # ks) m =
     (case m k of
        None \<Rightarrow> abort_loop h reqId ks m
      | Some cmd \<Rightarrow>
          if ConsensusRequestId (h cmd) = reqId then abort_loop h reqId ks (m(k := None))
          else abort_loop h reqId ks m)"

definition AbortExecution :: "cmd_store \<Rightarrow> ConsensusRequest \<Rightarrow> string list \<Rightarrow> RegisteredClient
    \<Rightarrow> RegisteredClient" where
  "AbortExecution h req ks c =
     c\<lparr>DispatchedCmds := abort_loop h (Id_req req) ks (DispatchedCmds c)\<rparr>"



definition Update :: "int \<Rightarrow> string list \<Rightarrow> RegisteredClient \<Rightarrow> RegisteredClient" where
  "Update now tags c = c\<lparr>LastPing := now, Tags := tags\<rparr>"

fun tags_loop :: "string list \<Rightarrow> string \<Rightarrow> bool" where
  "tags_loop [] s = False"
| "tags_loop (tag # tags) s = (if tag = s then True else tags_loop tags s)"

definition HasTag :: "RegisteredClient \<Rightarrow> string \<Rightarrow> bool" where
  "HasTag c s = (if length (Tags c) = 0 then False else tags_loop (Tags c) s)"

text \<open>
  \<^verbatim>\<open>Duration.Seconds()\<close> of a duration in nanoseconds, as an exact rational where Go
  rounds to a \<^verbatim>\<open>float64\<close>. \<^verbatim>\<open>IsAlive\<close> compares it with five times
  \<^verbatim>\<open>CLIENT_PING_INTERVAL\<close>, a constant declared elsewhere in the repository and a parameter
  here; \<open>now\<close> is \<^verbatim>\<open>time.Now()\<close>.
\<close>

definition Seconds :: "int \<Rightarrow> rat" where
  "Seconds d = of_int d / 1000000000"

definition IsAlive :: "int \<Rightarrow> int \<Rightarrow> RegisteredClient \<Rightarrow> bool" where
  "IsAlive CLIENT_PING_INTERVAL now c =
     (Seconds (now - LastPing c) > of_int (CLIENT_PING_INTERVAL * 5))"

section \<open>The agent store (agents.go)\<close>

record AgentStore =
  agents :: "string \<rightharpoonup> RegisteredClient"

definition newAgentStore :: AgentStore where
  "newAgentStore = \<lparr>agents = Map.empty\<rparr>"

definition Add :: "RegisteredClient \<Rightarrow> AgentStore \<Rightarrow> AgentStore" where
  "Add agent a = a\<lparr>agents := (agents a)(ClientId_rc agent \<mapsto> agent)\<rparr>"

definition RemoveById :: "string \<Rightarrow> AgentStore \<Rightarrow> AgentStore" where
  "RemoveById ident a = a\<lparr>agents := (agents a)(ident := None)\<rparr>"

definition Remove :: "RegisteredClient \<Rightarrow> AgentStore \<Rightarrow> AgentStore" where
  "Remove agent a = RemoveById (ClientId_rc agent) a"


text \<open>
  \<^verbatim>\<open>Cleanup\<close>: the loop deletes the entry under the id of the agent it visits. One
  reading of the clock stands for the sweep.
\<close>

fun cleanup_loop :: "int \<Rightarrow> int \<Rightarrow> string list \<Rightarrow> (string \<rightharpoonup> RegisteredClient)
    \<Rightarrow> (string \<rightharpoonup> RegisteredClient)" where
  "cleanup_loop ival now [] m = m"
| "cleanup_loop ival now (k # ks) m =
     (case m k of
        None \<Rightarrow> cleanup_loop ival now ks m
      | Some agent \<Rightarrow>
          if \<not> IsAlive ival now agent
          then cleanup_loop ival now ks (m(ClientId_rc agent := None))
          else cleanup_loop ival now ks m)"

definition Cleanup :: "int \<Rightarrow> int \<Rightarrow> string list \<Rightarrow> AgentStore \<Rightarrow> AgentStore" where
  "Cleanup CLIENT_PING_INTERVAL now ks a =
     a\<lparr>agents := cleanup_loop CLIENT_PING_INTERVAL now ks (agents a)\<rparr>"

text \<open>\<^verbatim>\<open>List\<close>: the two inner loops, then the loop over the agents.\<close>

fun excluded_loop :: "RegisteredClient \<Rightarrow> string list \<Rightarrow> bool" where
  "excluded_loop agent [] = False"
| "excluded_loop agent (tag # tags) =
     (let excluded = HasTag agent tag in
      if excluded then excluded else excluded_loop agent tags)"

fun match_loop :: "RegisteredClient \<Rightarrow> string list \<Rightarrow> bool" where
  "match_loop agent [] = True"
| "match_loop agent (tag # tags) =
     (if \<not> HasTag agent tag then False else match_loop agent tags)"

fun List_loop :: "(string \<rightharpoonup> RegisteredClient) \<Rightarrow> string list \<Rightarrow> string list \<Rightarrow> string list
    \<Rightarrow> RegisteredClient list" where
  "List_loop m [] incl excl = []"
| "List_loop m (k # ks) incl excl =
     (case m k of
        None \<Rightarrow> List_loop m ks incl excl
      | Some agent \<Rightarrow>
          (let excluded = (if length excl > 0 then excluded_loop agent excl else False) in
           if excluded then List_loop m ks incl excl
           else (let match = match_loop agent incl in
                 if length incl > 0 \<and> match = False then List_loop m ks incl excl
                 else agent # List_loop m ks incl excl)))"

definition List_agents :: "AgentStore \<Rightarrow> string list \<Rightarrow> string list \<Rightarrow> string list
    \<Rightarrow> RegisteredClient list" where
  "List_agents a ks incl excl = List_loop (agents a) ks incl excl"

text \<open>
  \<^verbatim>\<open>AbortConsensusExecution\<close>: \<^verbatim>\<open>AbortExecution\<close> on every agent the loop visits;
  \<open>cks\<close> gives, for each agent, the order of the loop over its dispatched commands.
\<close>

fun abort_all_loop :: "cmd_store \<Rightarrow> ConsensusRequest \<Rightarrow> (string \<Rightarrow> string list) \<Rightarrow> string list
    \<Rightarrow> (string \<rightharpoonup> RegisteredClient) \<Rightarrow> (string \<rightharpoonup> RegisteredClient)" where
  "abort_all_loop h req cks [] m = m"
| "abort_all_loop h req cks (k # ks) m =
     (case m k of
        None \<Rightarrow> abort_all_loop h req cks ks m
      | Some agent \<Rightarrow>
          abort_all_loop h req cks ks (m(k \<mapsto> AbortExecution h req (cks k) agent)))"

definition AbortConsensusExecution :: "cmd_store \<Rightarrow> ConsensusRequest \<Rightarrow> (string \<Rightarrow> string list)
    \<Rightarrow> string list \<Rightarrow> AgentStore \<Rightarrow> AgentStore" where
  "AbortConsensusExecution h req cks ks a =
     a\<lparr>agents := abort_all_loop h req cks ks (agents a)\<rparr>"

section \<open>The long poll (server.go)\<close>






section \<open>Steps of the coordinator on its registered clients\<close>




section \<open>The properties in the words of the specification\<close>

text \<open>
  A rule matches when the stream it selects (1 the standard output buffer, 2 the error
  output buffer) has a buffered line that contains the rule's text as a substring; a rule
  is violated when it must contain the text and does not match, or must not and matches.
\<close>

definition rule_matches :: "Cmd \<Rightarrow> ExecutionValidation \<Rightarrow> bool" where
  "rule_matches c v =
     ((OutputStream v = 1 \<and> (\<exists>line\<in>set (BufOutput c). sublist (Text v) line)) \<or>
      (OutputStream v = 2 \<and> (\<exists>line\<in>set (BufOutputErr c). sublist (Text v) line)))"

definition rule_violated :: "Cmd \<Rightarrow> ExecutionValidation \<Rightarrow> bool" where
  "rule_violated c v =
     ((MustContain v \<and> \<not> rule_matches c v) \<or> (\<not> MustContain v \<and> rule_matches c v))"

text \<open>
  An agent is selected by a pair of tag lists when its tags contain every tag to include
  and no tag to exclude.
\<close>

definition selected :: "string list \<Rightarrow> string list \<Rightarrow> RegisteredClient \<Rightarrow> bool" where
  "selected incl excl agent =
     ((\<forall>tag\<in>set incl. tag \<in> set (Tags agent)) \<and> (\<forall>tag\<in>set excl. tag \<notin> set (Tags agent)))"

text \<open>A list of effects without an upload of logs.\<close>

definition no_logs :: "effect list \<Rightarrow> bool" where
  "no_logs es = (\<forall>a b d. Put_logs a b d \<notin> set es)"





section \<open>Example values\<close>

text \<open>
  An agent process (no coordinator in it) and a coordinator process with one template and
  one coordinator entry; a stand-in for the library, in which decoding and encoding are
  the identity and the HMAC is the key followed by the message; a command signed for the
  agent's token under that stand-in.
\<close>

definition ex_agent_globals :: Globals where
  "ex_agent_globals =
     \<lparr>conf = \<lparr>Debug = False, ServerEnabled = False\<rparr>, templateStore = Map.empty,
      executionCoordinator = Map.empty,
      client = \<lparr>Id_client = ''agent1'', AuthToken_client = ''tok''\<rparr>\<rparr>"

definition ex_rule :: ExecutionValidation where
  "ex_rule = \<lparr>Id_rule = ''r1'', Fatal = True, MustContain = True, OutputStream = 1,
     Text = ''done''\<rparr>"

definition ex_server_globals :: Globals where
  "ex_server_globals =
     \<lparr>conf = \<lparr>Debug = False, ServerEnabled = True\<rparr>,
      templateStore = [''t1'' \<mapsto> \<lparr>ValidationRules = [ex_rule]\<rparr>],
      executionCoordinator = [''req1'' \<mapsto> \<lparr>Id_ece = ''req1'', iteration = 0\<rparr>],
      client = \<lparr>Id_client = ''agent1'', AuthToken_client = ''tok''\<rparr>\<rparr>"

definition ex_lib :: Stdlib where
  "ex_lib =
     \<lparr>base64_DecodeString = Some, base64_EncodeToString = (\<lambda>bytes. bytes),
      hmac_sha256 = (\<lambda>key msg. key @ msg),
      json_Marshal = (\<lambda>out err. Some (concat out @ concat err))\<rparr>"

definition ex_cmd :: Cmd where
  "ex_cmd =
     \<lparr>Command = ''ls'', Pending = True, Id_cmd = ''id1'', ClientId = ''agent1'',
      TemplateId = ''t1'', ConsensusRequestId = ''req1'', Signature = ''toklsid1'',
      Timeout = 60, state = ''pending'', RequestUserId = ''u1'', Created = 0,
      ExecutionIterationId = 0, BufOutput = [], BufOutputErr = []\<rparr>"

text \<open>
  Nine buffered lines. A registered client with a token; a command store whose pointer 0
  is \<open>ex_cmd\<close> and whose other pointers are a command of another request; the client
  after one and after two calls of \<^verbatim>\<open>Submit\<close>, and the agent store that holds it after
  the first. The three agents of the tag filter scenario: \<open>a\<close> with tags x and y, \<open>b\<close>
  with x, \<open>c\<close> with y and z. An instant 1000 seconds after instant 0.
\<close>

definition ex_nine_lines :: "string list" where
  "ex_nine_lines =
     [''step 1'', ''step 2'', ''step 3'', ''step 4'', ''step 5'', ''step 6'', ''step 7'',
      ''step 8'', ''step 9'']"

definition ex_rc :: RegisteredClient where
  "ex_rc = (newRegisteredClient ''agent1'')\<lparr>AuthToken := ''tok''\<rparr>"

definition ex_heap :: cmd_store where
  "ex_heap = (\<lambda>p. if p = 0 then ex_cmd
                   else ex_cmd\<lparr>Id_cmd := ''id2'', ConsensusRequestId := ''req2''\<rparr>)"


definition ex_rc_two :: RegisteredClient where
  "ex_rc_two = Submit ex_heap 1 (Submit ex_heap 0 ex_rc)"

definition ex_tagged :: AgentStore where
  "ex_tagged =
     Add (Update 0 [''y'', ''z''] (newRegisteredClient ''c''))
       (Add (Update 0 [''x''] (newRegisteredClient ''b''))
          (Add (Update 0 [''x'', ''y''] (newRegisteredClient ''a'')) newAgentStore))"

definition ex_now :: int where
  "ex_now = 1000000000000"



section \<open>State changes of a command\<close>

lemma SetState_plain:
  "\<not> (state c = ''finished_execution'' \<and> st = ''flushed_logs'') \<Longrightarrow>
   SetState g c st =
     (if state c = ''failed_execution'' \<and> st = ''flushed_logs''
      then (c\<lparr>state := ''failed''\<rparr>, []) else (c\<lparr>state := st\<rparr>, []))"
  by (auto simp: SetState.simps Let_def)

lemma SetState_validate:
  "state c = ''finished_execution'' \<Longrightarrow>
   SetState g c ''flushed_logs'' = Cmd_validate g (c\<lparr>state := ''flushed_logs''\<rparr>)"
  by (simp add: SetState.simps Let_def)

lemma NotifyServer_plain:
  "st \<noteq> ''flushed_logs'' \<Longrightarrow>
   NotifyServer g c st =
     (c\<lparr>state := st\<rparr>,
      if length (Signature c) > 0 then [Put_state (Id_client (client g)) (Id_cmd c) st] else [])"
  by (simp add: NotifyServer_def SetState_plain)

text \<open>A state change touches the state of the command only, and starts at most the
  next iteration.\<close>

lemma SetState_only_state: "\<exists>s. fst (SetState g c st) = c\<lparr>state := s\<rparr>"
proof (cases "state c = ''finished_execution'' \<and> st = ''flushed_logs''")
  case False
  then show ?thesis
    by (auto simp: SetState_plain)
next
  case True
  then have eq: "SetState g c st = Cmd_validate g (c\<lparr>state := ''flushed_logs''\<rparr>)"
    by (simp add: SetState_validate)
  show ?thesis
    unfolding eq
    by (auto simp: Cmd_validate.simps SetState_plain split: option.split prod.split)
qed

lemma SetState_effects: "set (snd (SetState g c st)) \<subseteq> range Next_started"
proof (cases "state c = ''finished_execution'' \<and> st = ''flushed_logs''")
  case False
  then show ?thesis
    by (auto simp: SetState_plain)
next
  case True
  then have eq: "SetState g c st = Cmd_validate g (c\<lparr>state := ''flushed_logs''\<rparr>)"
    by (simp add: SetState_validate)
  show ?thesis
    unfolding eq
    by (auto simp: Cmd_validate.simps SetState_plain split: option.split prod.split)
qed

lemma NotifyServer_only_state: "\<exists>s. fst (NotifyServer g c st) = c\<lparr>state := s\<rparr>"
proof -
  obtain s where "fst (SetState g c st) = c\<lparr>state := s\<rparr>"
    using SetState_only_state by blast
  then show ?thesis
    by (cases "SetState g c st") (auto simp: NotifyServer_def)
qed

lemma NotifyServer_no_logs: "Put_logs a b d \<notin> set (snd (NotifyServer g c st))"
proof -
  have "Put_logs a b d \<notin> set (snd (SetState g c st))"
    using SetState_effects [of g c st] by auto
  then show ?thesis
    by (cases "SetState g c st") (auto simp: NotifyServer_def)
qed

text \<open>
  C3. From \<^verbatim>\<open>failed_execution\<close> the transition \<^verbatim>\<open>flushed_logs\<close> ends in \<^verbatim>\<open>failed\<close>;
  from \<^verbatim>\<open>killed_execution\<close> the same transition leaves the command in
  \<^verbatim>\<open>flushed_logs\<close>, since \<^verbatim>\<open>SetState\<close> has a branch for the first state only.
\<close>

theorem SetState_flushed_logs_after_failure:
  "state (fst (SetState g (c\<lparr>state := ''failed_execution''\<rparr>) ''flushed_logs'')) = ''failed''
   \<and> state (fst (SetState g (c\<lparr>state := ''killed_execution''\<rparr>) ''flushed_logs''))
       = ''flushed_logs''"
  by (simp add: SetState_plain)

section \<open>Validation\<close>

lemma strings_Contains_sublist: "strings_Contains line txt \<longleftrightarrow> sublist txt line"
  by (induction line) (auto simp: sublist_Cons_right)

lemma matched_line_iff: "matched_line stream txt \<longleftrightarrow> (\<exists>line\<in>set stream. sublist txt line)"
  by (induction stream) (auto simp: strings_Contains_sublist)

lemma matched_line_rule_matches:
  "OutputStream v = 1 \<or> OutputStream v = 2 \<Longrightarrow>
   matched_line (select_stream c v) (Text v) \<longleftrightarrow> rule_matches c v"
  by (auto simp: matched_line_iff select_stream_def rule_matches_def)

lemma failedValidation_iff:
  "\<forall>v\<in>set vs. OutputStream v = 1 \<or> OutputStream v = 2 \<Longrightarrow>
   failedValidation c vs \<longleftrightarrow> (\<exists>v\<in>set vs. rule_violated c v)"
proof (induction vs)
  case Nil
  then show ?case by simp
next
  case (Cons v vs)
  then have m: "matched_line (select_stream c v) (Text v) \<longleftrightarrow> rule_matches c v"
    by (simp add: matched_line_rule_matches)
  from Cons have ih: "failedValidation c vs \<longleftrightarrow> (\<exists>v\<in>set vs. rule_violated c v)"
    by simp
  show ?case
    by (auto simp: m ih rule_violated_def Let_def)
qed

lemma failedValidation_state [simp]:
  "failedValidation (c\<lparr>state := s\<rparr>) vs = failedValidation c vs"
  by (induction vs) (simp_all add: select_stream_def)

text \<open>
  C5, as the code has it. The transition from \<^verbatim>\<open>finished_execution\<close> to
  \<^verbatim>\<open>flushed_logs\<close> validates only on the coordinator and only when the command's
  template is in the template store. Then the state becomes \<^verbatim>\<open>failed_validation\<close> if
  some rule of the template is violated, and \<^verbatim>\<open>finished\<close> otherwise; in the second
  case the next iteration is started when the coordinator has an entry for the command's
  request. On an agent, or without the template, the state stays \<^verbatim>\<open>flushed_logs\<close> and
  nothing is started.
\<close>

theorem SetState_flushed_logs_validates:
  assumes "state c = ''finished_execution''"
  shows "(ServerEnabled (conf g) \<and> templateStore g (TemplateId c) = Some t \<and>
          (\<forall>v\<in>set (ValidationRules t). OutputStream v = 1 \<or> OutputStream v = 2) \<longrightarrow>
            SetState g c ''flushed_logs'' =
              (if \<exists>v\<in>set (ValidationRules t). rule_violated c v
               then (c\<lparr>state := ''failed_validation''\<rparr>, [])
               else (c\<lparr>state := ''finished''\<rparr>,
                     case executionCoordinator g (ConsensusRequestId c) of
                       None \<Rightarrow> []
                     | Some ece \<Rightarrow> [Next_started (Id_ece ece)])))
       \<and> (\<not> ServerEnabled (conf g) \<or> templateStore g (TemplateId c) = None \<longrightarrow>
            SetState g c ''flushed_logs'' = (c\<lparr>state := ''flushed_logs''\<rparr>, []))"
proof (intro conjI impI)
  assume a: "ServerEnabled (conf g) \<and> templateStore g (TemplateId c) = Some t \<and>
          (\<forall>v\<in>set (ValidationRules t). OutputStream v = 1 \<or> OutputStream v = 2)"
  then have fv: "failedValidation c (ValidationRules t)
      \<longleftrightarrow> (\<exists>v\<in>set (ValidationRules t). rule_violated c v)"
    by (simp add: failedValidation_iff)
  show "SetState g c ''flushed_logs'' =
              (if \<exists>v\<in>set (ValidationRules t). rule_violated c v
               then (c\<lparr>state := ''failed_validation''\<rparr>, [])
               else (c\<lparr>state := ''finished''\<rparr>,
                     case executionCoordinator g (ConsensusRequestId c) of
                       None \<Rightarrow> []
                     | Some ece \<Rightarrow> [Next_started (Id_ece ece)]))"
    using a assms
    by (simp add: SetState_validate Cmd_validate.simps fv SetState_plain split: option.splits)
next
  assume "\<not> ServerEnabled (conf g) \<or> templateStore g (TemplateId c) = None"
  then show "SetState g c ''flushed_logs'' = (c\<lparr>state := ''flushed_logs''\<rparr>, [])"
    using assms by (auto simp: SetState_validate Cmd_validate.simps)
qed

text \<open>
  The theorem at a command whose standard output has the line the example rule asks for
  (the state becomes \<^verbatim>\<open>finished\<close> and the entry of its request is advanced), and at one
  whose output is empty (the state becomes \<^verbatim>\<open>failed_validation\<close>).
\<close>

theorem SetState_flushed_logs_validates_witness:
  "state (ex_cmd\<lparr>state := ''finished_execution'', BufOutput := [''all done'']\<rparr>)
     = ''finished_execution''
   \<and> SetState ex_server_globals
        (ex_cmd\<lparr>state := ''finished_execution'', BufOutput := [''all done'']\<rparr>) ''flushed_logs''
     = (ex_cmd\<lparr>state := ''finished'', BufOutput := [''all done'']\<rparr>, [Next_started ''req1''])
   \<and> state (fst (SetState ex_server_globals (ex_cmd\<lparr>state := ''finished_execution''\<rparr>)
        ''flushed_logs'')) = ''failed_validation''"
  using SetState_flushed_logs_validates
          [of "ex_cmd\<lparr>state := ''finished_execution'', BufOutput := [''all done'']\<rparr>"
              ex_server_globals "\<lparr>ValidationRules = [ex_rule]\<rparr>"]
        SetState_flushed_logs_validates
          [of "ex_cmd\<lparr>state := ''finished_execution''\<rparr>"
              ex_server_globals "\<lparr>ValidationRules = [ex_rule]\<rparr>"]
  by (simp add: ex_cmd_def ex_server_globals_def ex_rule_def rule_violated_def rule_matches_def
        sublist_Cons_right)

text \<open>
  C5 as stated fails: on an agent, and on the coordinator when the template is unknown,
  the same transition ends in \<^verbatim>\<open>flushed_logs\<close>, which is neither \<^verbatim>\<open>failed_validation\<close>
  nor \<^verbatim>\<open>finished\<close>.
\<close>

theorem SetState_flushed_logs_without_validation:
  "state (fst (SetState ex_agent_globals (ex_cmd\<lparr>state := ''finished_execution''\<rparr>)
      ''flushed_logs'')) = ''flushed_logs''
   \<and> state (fst (SetState ex_server_globals
        (ex_cmd\<lparr>state := ''finished_execution'', TemplateId := ''t2''\<rparr>) ''flushed_logs''))
      = ''flushed_logs''"
  by (simp add: SetState_validate Cmd_validate.simps ex_agent_globals_def ex_server_globals_def
        ex_cmd_def)

section \<open>Validation rules\<close>

text \<open>
  C4. \<^verbatim>\<open>newExecutionValidation\<close> checks the stream it is given and then builds the rule
  from constants: asked for a rule that is not fatal, must not contain the text and reads
  stream 2, it returns one that is fatal, must contain the text and reads stream 1.
\<close>

theorem newExecutionValidation_ignores_inputs:
  "newExecutionValidation uuid ''error'' False False 2 =
     Some \<lparr>Id_rule = uuid, Fatal = True, MustContain = True, OutputStream = 1,
           Text = ''error''\<rparr>"
  by (simp add: newExecutionValidation_def)

section \<open>Signature check before execution\<close>

lemma ComputeHmac_state [simp]:
  "ComputeHmac lib (c\<lparr>state := s\<rparr>) token = ComputeHmac lib c token"
  by (simp add: ComputeHmac_def split: option.split)

lemma signature_invalid_state [simp]:
  "signature_invalid lib cl (c\<lparr>state := s\<rparr>) = signature_invalid lib cl c"
  by (simp add: signature_invalid_def)

lemma signature_invalid_iff:
  "signature_invalid lib cl c \<longleftrightarrow>
     \<not> (ComputeHmac lib c (AuthToken_client cl) = Signature c \<and> Signature c \<noteq> [])"
  by (auto simp: signature_invalid_def)

lemma Start_bash_in_Execute_run: "Start_bash \<in> set (snd (Execute_run g lib oc c))"
  by (cases oc) (simp_all add: Execute_run_def split: prod.splits)

lemma Execute_invalid:
  assumes "signature_invalid lib cl c"
  shows "Execute g lib (Some cl) oc c =
           (c\<lparr>state := ''invalid_signature''\<rparr>,
            (if length (Signature c) > 0
             then [Put_state (Id_client (client g)) (Id_cmd c) ''validating'',
                   Put_state (Id_client (client g)) (Id_cmd c) ''invalid_signature'']
             else []) @ [AuthServer])"
proof -
  have "signature_invalid lib cl (c\<lparr>state := ''validating''\<rparr>)"
    using assms by simp
  then show ?thesis
    by (simp add: Execute_def NotifyServer_plain)
qed

lemma Execute_valid:
  assumes "\<not> signature_invalid lib cl c"
  shows "Start_bash \<in> set (snd (Execute g lib (Some cl) oc c))"
proof -
  have "\<not> signature_invalid lib cl (c\<lparr>state := ''validating''\<rparr>)"
    using assms by simp
  moreover have "Start_bash \<in> set (snd (Execute_run g lib oc (c\<lparr>state := ''starting''\<rparr>)))"
    by (rule Start_bash_in_Execute_run)
  ultimately show ?thesis
    by (auto simp: Execute_def NotifyServer_plain split: prod.splits)
qed

text \<open>
  C1. With a client, \<^verbatim>\<open>Execute\<close> starts the shell exactly when the recomputed HMAC
  equals the command's signature and the signature is not empty; otherwise the command
  ends in \<^verbatim>\<open>invalid_signature\<close> and no script is written or started. The recomputed
  HMAC is the encoding of the HMAC, under the decoded token, of the command text followed
  by the id.
\<close>

theorem Execute_runs_only_signed:
  "(Start_bash \<in> set (snd (Execute g lib (Some cl) oc c)) \<longleftrightarrow>
      ComputeHmac lib c (AuthToken_client cl) = Signature c \<and> Signature c \<noteq> [])
   \<and> (\<not> (ComputeHmac lib c (AuthToken_client cl) = Signature c \<and> Signature c \<noteq> []) \<longrightarrow>
        state (fst (Execute g lib (Some cl) oc c)) = ''invalid_signature'' \<and>
        (\<forall>script. WriteFile script \<notin> set (snd (Execute g lib (Some cl) oc c))))
   \<and> (\<forall>key. base64_DecodeString lib (AuthToken_client cl) = Some key \<longrightarrow>
        ComputeHmac lib c (AuthToken_client cl) =
          base64_EncodeToString lib (hmac_sha256 lib key (Command c @ Id_cmd c)))"
proof (cases "signature_invalid lib cl c")
  case True
  then show ?thesis
    using Execute_invalid [OF True, of g oc]
    by (auto simp: signature_invalid_iff ComputeHmac_def)
next
  case False
  then show ?thesis
    using Execute_valid [OF False, of g oc]
    by (auto simp: signature_invalid_iff ComputeHmac_def)
qed

text \<open>
  The theorem at the signed example command, which is started, and at the same command
  with a forged signature, which is not.
\<close>

theorem Execute_runs_only_signed_witness:
  "Start_bash \<in> set (snd (Execute ex_agent_globals ex_lib (Some (client ex_agent_globals))
      (Done_ok ''hi'' []) ex_cmd))
   \<and> ComputeHmac ex_lib (ex_cmd\<lparr>Signature := ''forged''\<rparr>) ''tok'' \<noteq> ''forged''
   \<and> state (fst (Execute ex_agent_globals ex_lib (Some (client ex_agent_globals))
      (Done_ok ''hi'' []) (ex_cmd\<lparr>Signature := ''forged''\<rparr>))) = ''invalid_signature''
   \<and> Start_bash \<notin> set (snd (Execute ex_agent_globals ex_lib (Some (client ex_agent_globals))
      (Done_ok ''hi'' []) (ex_cmd\<lparr>Signature := ''forged''\<rparr>)))"
  using Execute_runs_only_signed
          [of ex_agent_globals ex_lib "client ex_agent_globals" "Done_ok ''hi'' []" ex_cmd]
        Execute_runs_only_signed
          [of ex_agent_globals ex_lib "client ex_agent_globals" "Done_ok ''hi'' []"
              "ex_cmd\<lparr>Signature := ''forged''\<rparr>"]
  by (simp add: ComputeHmac_def ex_lib_def ex_cmd_def ex_agent_globals_def)

section \<open>Log buffers\<close>

lemma Cmd_flushLogs_uploads_iff:
  "snd (Cmd_flushLogs g lib c) \<noteq> [] \<longleftrightarrow>
     Signature c \<noteq> [] \<and> json_Marshal lib (BufOutput c) (BufOutputErr c) \<noteq> None"
  by (auto simp: Cmd_flushLogs_def split: option.splits)

lemma Cmd_checkFlushLogs_uploads_iff:
  "snd (Cmd_checkFlushLogs g lib c) \<noteq> [] \<longleftrightarrow>
     (length (BufOutput c) > 10 \<or> length (BufOutputErr c) > 10) \<and>
     Signature c \<noteq> [] \<and> json_Marshal lib (BufOutput c) (BufOutputErr c) \<noteq> None"
  by (auto simp: Cmd_checkFlushLogs_def Cmd_flushLogs_uploads_iff)

lemma Cmd_flushLogs_clears:
  "snd (Cmd_flushLogs g lib c) \<noteq> [] \<Longrightarrow>
     BufOutput (fst (Cmd_flushLogs g lib c)) = [] \<and>
     BufOutputErr (fst (Cmd_flushLogs g lib c)) = []"
  by (auto simp: Cmd_flushLogs_def split: option.splits if_splits)

text \<open>A command without a signature uploads nothing, whatever the process does.\<close>

lemma no_logs_simps [simp]:
  "no_logs []" "no_logs (es @ es') = (no_logs es \<and> no_logs es')"
  "no_logs (e # es) = ((\<forall>a b d. e \<noteq> Put_logs a b d) \<and> no_logs es)"
  by (auto simp: no_logs_def)

lemma NotifyServer_unsigned:
  "Signature c = [] \<Longrightarrow>
     Signature (fst (NotifyServer g c st)) = [] \<and> no_logs (snd (NotifyServer g c st))"
  using NotifyServer_only_state [of g c st] NotifyServer_no_logs [of _ _ _ g c st]
  by (auto simp: no_logs_def)

lemma Log_unsigned:
  "Signature c = [] \<Longrightarrow>
     Signature (fst (LogOutput g lib c line)) = [] \<and> no_logs (snd (LogOutput g lib c line))"
  "Signature c = [] \<Longrightarrow>
     Signature (fst (LogError g lib c line)) = [] \<and> no_logs (snd (LogError g lib c line))"
  by (simp_all add: LogOutput_def LogError_def Cmd_checkFlushLogs_def Cmd_flushLogs_def)

lemma log_lines_unsigned:
  assumes "\<And>c line. Signature c = [] \<Longrightarrow>
             Signature (fst (logf c line)) = [] \<and> no_logs (snd (logf c line))"
  shows "Signature c = [] \<Longrightarrow>
     Signature (fst (log_lines logf c ls)) = [] \<and> no_logs (snd (log_lines logf c ls))"
proof (induction ls arbitrary: c)
  case Nil
  then show ?case by simp
next
  case (Cons line ls)
  from assms [OF Cons.prems, of line]
  have 1: "Signature (fst (logf c line)) = []" "no_logs (snd (logf c line))" by auto
  from Cons.IH [OF 1(1)] 1(2) show ?case
    by (simp add: split_beta)
qed

lemma Execute_logs_unsigned:
  assumes "Signature c = []"
  shows "Signature (fst (Execute_logs g lib c out outerr)) = [] \<and>
         no_logs (snd (Execute_logs g lib c out outerr))"
proof -
  let ?r1 = "log_lines (LogOutput g lib) c (Split_lf out)"
  let ?r2 = "log_lines (LogError g lib) (fst ?r1) (Split_lf outerr)"
  have 1: "Signature (fst ?r1) = []" "no_logs (snd ?r1)"
    using log_lines_unsigned [of "LogOutput g lib" c "Split_lf out"] Log_unsigned(1) assms
    by auto
  have 2: "Signature (fst ?r2) = []" "no_logs (snd ?r2)"
    using log_lines_unsigned [of "LogError g lib" "fst ?r1" "Split_lf outerr"] Log_unsigned(2) 1
    by auto
  have 3: "Cmd_flushLogs g lib (fst ?r2) = (fst ?r2, [])"
    using 2 by (simp add: Cmd_flushLogs_def)
  show ?thesis
    using 1 2 3 NotifyServer_unsigned [OF 2(1), of g "''flushed_logs''"]
    by (simp add: Execute_logs_def split_beta)
qed

lemma Execute_run_unsigned:
  assumes "Signature c = []"
  shows "no_logs (snd (Execute_run g lib oc c))"
proof -
  note N = NotifyServer_unsigned
  show ?thesis
  proof (cases oc)
    case Start_failed
    then show ?thesis using N [OF assms] by (simp add: Execute_run_def split_beta)
  next
    case Timeout_kill_failed
    then show ?thesis using N [OF assms] by (simp add: Execute_run_def split_beta)
  next
    case (Timeout_killed out outerr)
    let ?c1 = "fst (NotifyServer g c ''started_execution'')"
    let ?c2 = "fst (NotifyServer g ?c1 ''killed_execution'')"
    have 1: "Signature ?c1 = []" using N [OF assms] by simp
    have 2: "Signature ?c2 = []" using N [OF 1] by simp
    show ?thesis
      using Timeout_killed N [OF assms, of g] N [OF 1, of g] Execute_logs_unsigned [OF 2, of g lib]
      by (simp add: Execute_run_def split_beta)
  next
    case (Done_error err out outerr)
    let ?c1 = "fst (NotifyServer g c ''started_execution'')"
    let ?c2 = "fst (NotifyServer g ?c1 ''failed_execution'')"
    let ?c3 = "fst (LogError g lib ?c2 err)"
    have 1: "Signature ?c1 = []" using N [OF assms] by simp
    have 2: "Signature ?c2 = []" using N [OF 1] by simp
    have 3: "Signature ?c3 = []" using Log_unsigned(2) [OF 2] by simp
    show ?thesis
      using Done_error N [OF assms, of g] N [OF 1, of g] Log_unsigned(2) [OF 2, of g lib]
        Execute_logs_unsigned [OF 3, of g lib]
      by (simp add: Execute_run_def split_beta)
  next
    case (Done_ok out outerr)
    let ?c1 = "fst (NotifyServer g c ''started_execution'')"
    let ?c2 = "fst (NotifyServer g ?c1 ''finished_execution'')"
    have 1: "Signature ?c1 = []" using N [OF assms] by simp
    have 2: "Signature ?c2 = []" using N [OF 1] by simp
    show ?thesis
      using Done_ok N [OF assms, of g] N [OF 1, of g] Execute_logs_unsigned [OF 2, of g lib]
      by (simp add: Execute_run_def split_beta)
  qed
qed

lemma Execute_unsigned_never_uploads:
  assumes "Signature c = []"
  shows "no_logs (snd (Execute g lib cl oc c))"
proof -
  let ?c1 = "fst (NotifyServer g c ''validating'')"
  let ?c2 = "fst (NotifyServer g ?c1 ''starting'')"
  have 1: "Signature ?c1 = []" using NotifyServer_unsigned [OF assms] by simp
  have 2: "Signature ?c2 = []" using NotifyServer_unsigned [OF 1] by simp
  show ?thesis
    using NotifyServer_unsigned [OF assms, of g] NotifyServer_unsigned [OF 1, of g]
      Execute_run_unsigned [OF 2, of g lib oc]
    by (simp add: Execute_def split_beta)
qed

text \<open>
  A signed command uploads its buffers once more right before it reports
  \<^verbatim>\<open>flushed_logs\<close>, and reports with empty buffers (when the JSON encoding does not fail).
\<close>

lemma Log_keeps:
  "Signature (fst (LogOutput g lib c line)) = Signature c \<and>
   Id_cmd (fst (LogOutput g lib c line)) = Id_cmd c"
  "Signature (fst (LogError g lib c line)) = Signature c \<and>
   Id_cmd (fst (LogError g lib c line)) = Id_cmd c"
  by (simp_all add: LogOutput_def LogError_def Cmd_checkFlushLogs_def Cmd_flushLogs_def
      split: option.split)

lemma log_lines_keeps:
  assumes "\<And>c line. Signature (fst (logf c line)) = Signature c \<and>
             Id_cmd (fst (logf c line)) = Id_cmd c"
  shows "Signature (fst (log_lines logf c ls)) = Signature c \<and>
         Id_cmd (fst (log_lines logf c ls)) = Id_cmd c"
proof (induction ls arbitrary: c)
  case Nil
  then show ?case by simp
next
  case (Cons line ls)
  show ?case
    using Cons.IH [of "fst (logf c line)"] assms [of c line]
    by (simp add: split_beta)
qed

lemma Execute_logs_final_upload:
  assumes "Signature c \<noteq> []" and "\<And>out err. json_Marshal lib out err \<noteq> None"
  shows "\<exists>es0 bytes c3.
     snd (Execute_logs g lib c out outerr) =
       es0 @ [Put_logs (Id_client (client g)) (Id_cmd c) bytes]
         @ snd (NotifyServer g c3 ''flushed_logs'')
     \<and> BufOutput c3 = [] \<and> BufOutputErr c3 = []"
proof -
  let ?r1 = "log_lines (LogOutput g lib) c (Split_lf out)"
  let ?r2 = "log_lines (LogError g lib) (fst ?r1) (Split_lf outerr)"
  let ?c2 = "fst ?r2"
  have 1: "Signature (fst ?r1) = Signature c" "Id_cmd (fst ?r1) = Id_cmd c"
    using log_lines_keeps [of "LogOutput g lib" c "Split_lf out"] Log_keeps(1) by auto
  have 2: "Signature ?c2 = Signature c" "Id_cmd ?c2 = Id_cmd c"
    using log_lines_keeps [of "LogError g lib" "fst ?r1" "Split_lf outerr"] Log_keeps(2) 1
    by auto
  obtain bytes where b: "json_Marshal lib (BufOutput ?c2) (BufOutputErr ?c2) = Some bytes"
    using assms(2) [of "BufOutput ?c2" "BufOutputErr ?c2"] by auto
  have 3: "Cmd_flushLogs g lib ?c2 =
      (?c2\<lparr>BufOutput := [], BufOutputErr := []\<rparr>,
       [Put_logs (Id_client (client g)) (Id_cmd c) bytes])"
    using assms(1) 2 b by (simp add: Cmd_flushLogs_def)
  have "snd (Execute_logs g lib c out outerr) =
      (snd ?r1 @ snd ?r2) @ [Put_logs (Id_client (client g)) (Id_cmd c) bytes]
        @ snd (NotifyServer g (?c2\<lparr>BufOutput := [], BufOutputErr := []\<rparr>) ''flushed_logs'')"
    by (simp add: Execute_logs_def split_beta 3)
  then show ?thesis
    by (intro exI [of _ "snd ?r1 @ snd ?r2"] exI [of _ bytes]
        exI [of _ "?c2\<lparr>BufOutput := [], BufOutputErr := []\<rparr>"]) simp
qed

text \<open>
  C9. A signed command with nine buffered lines on a stream takes a tenth: the buffer
  then has ten lines and nothing is uploaded, on the output stream and on the error
  stream alike. \<^verbatim>\<open>_checkFlushLogs\<close> uploads from the eleventh line on.
\<close>

theorem LogOutput_tenth_line_no_upload:
  "Signature ex_cmd \<noteq> []
   \<and> length (BufOutput (fst (LogOutput ex_agent_globals ex_lib
        (ex_cmd\<lparr>BufOutput := ex_nine_lines\<rparr>) ''step 10''))) = 10
   \<and> snd (LogOutput ex_agent_globals ex_lib (ex_cmd\<lparr>BufOutput := ex_nine_lines\<rparr>) ''step 10'') = []
   \<and> length (BufOutputErr (fst (LogError ex_agent_globals ex_lib
        (ex_cmd\<lparr>BufOutputErr := ex_nine_lines\<rparr>) ''step 10''))) = 10
   \<and> snd (LogError ex_agent_globals ex_lib (ex_cmd\<lparr>BufOutputErr := ex_nine_lines\<rparr>) ''step 10'') = []"
  by (simp add: LogOutput_def LogError_def Cmd_checkFlushLogs_def ex_nine_lines_def ex_cmd_def)

section \<open>Creating a command\<close>

text \<open>
  C10. \<^verbatim>\<open>newCmd\<close> with a timeout below 1 returns a command whose timeout is
  \<^verbatim>\<open>DEFAULT_COMMAND_TIMEOUT\<close>; every new command is in state \<^verbatim>\<open>pending\<close> with
  \<^verbatim>\<open>Pending\<close> set.
\<close>

theorem newCmd_defaults:
  "(timeout < 1 \<longrightarrow> Timeout (newCmd DEFAULT_COMMAND_TIMEOUT uuid now command timeout)
        = DEFAULT_COMMAND_TIMEOUT)
   \<and> state (newCmd DEFAULT_COMMAND_TIMEOUT uuid now command timeout) = ''pending''
   \<and> Pending (newCmd DEFAULT_COMMAND_TIMEOUT uuid now command timeout) = True"
  by (simp add: newCmd_def)

text \<open>The theorem at the timeout 0 with a default of 300 seconds.\<close>

theorem newCmd_defaults_witness:
  "(0::int) < 1 \<and> Timeout (newCmd 300 ''id1'' 0 ''ls'' 0) = 300
   \<and> state (newCmd 300 ''id1'' 0 ''ls'' 0) = ''pending''
   \<and> Pending (newCmd 300 ''id1'' 0 ''ls'' 0) = True"
  using newCmd_defaults [of 0 300 "''id1''" 0 "''ls''"] by simp

section \<open>Liveness and the sweep\<close>

lemma IsAlive_iff:
  "IsAlive ival now c \<longleftrightarrow> now - LastPing c > ival * 5 * 1000000000"
proof -
  have "(of_int (now - LastPing c) / 1000000000 > (of_int (ival * 5) :: rat))
      \<longleftrightarrow> (of_int (ival * 5) * 1000000000 < (of_int (now - LastPing c) :: rat))"
    by (simp add: pos_less_divide_eq)
  also have "\<dots> \<longleftrightarrow> (of_int (ival * 5 * 1000000000) < (of_int (now - LastPing c) :: rat))"
    by simp
  also have "\<dots> \<longleftrightarrow> ival * 5 * 1000000000 < now - LastPing c"
    by (simp only: of_int_less_iff)
  finally show ?thesis
    by (simp add: IsAlive_def Seconds_def)
qed

text \<open>
  When every agent is stored under its own id, the sweep deletes the entries whose agent
  \<^verbatim>\<open>IsAlive\<close> rejects, and no other.
\<close>

lemma cleanup_loop_lookup:
  assumes "\<forall>k agent. m k = Some agent \<longrightarrow> ClientId_rc agent = k"
  shows "cleanup_loop ival now ks m k =
     (case m k of
        None \<Rightarrow> None
      | Some agent \<Rightarrow> if k \<in> set ks \<and> \<not> IsAlive ival now agent then None else Some agent)"
  using assms
proof (induction ks arbitrary: m)
  case Nil
  then show ?case by (simp split: option.split)
next
  case (Cons k0 ks)
  show ?case
  proof (cases "m k0")
    case None
    then show ?thesis using Cons by (auto split: option.split)
  next
    case (Some agent)
    then have id: "ClientId_rc agent = k0" using Cons.prems by simp
    show ?thesis
    proof (cases "IsAlive ival now agent")
      case True
      with Some have step: "cleanup_loop ival now (k0 # ks) m = cleanup_loop ival now ks m"
        by simp
      show ?thesis
        unfolding step using Cons.IH [OF Cons.prems] Some True
        by (cases "k = k0") (simp_all split: option.split)
    next
      case False
      with Some id
      have step: "cleanup_loop ival now (k0 # ks) m = cleanup_loop ival now ks (m(k0 := None))"
        by simp
      have inv: "\<forall>k agent. (m(k0 := None)) k = Some agent \<longrightarrow> ClientId_rc agent = k"
        using Cons.prems by simp
      have "cleanup_loop ival now ks (m(k0 := None)) k =
          (case (m(k0 := None)) k of
             None \<Rightarrow> None
           | Some agent \<Rightarrow>
               if k \<in> set ks \<and> \<not> IsAlive ival now agent then None else Some agent)"
        by (rule Cons.IH [OF inv])
      then show ?thesis
        unfolding step using Some False
        by (cases "k = k0") (simp_all split: option.split)
    qed
  qed
qed

text \<open>
  C2. With a ping interval of 60 seconds, \<^verbatim>\<open>IsAlive\<close> is false for an agent whose last
  ping is the current instant, and the sweep removes that agent; it is true for an agent
  whose last ping is 1000 seconds old, and the sweep keeps that one. \<^verbatim>\<open>IsAlive\<close>
  answers whether the last ping is older than five intervals.
\<close>

theorem IsAlive_recent_ping_not_alive:
  "IsAlive 60 ex_now (Update ex_now [''x''] ex_rc) = False
   \<and> agents (Cleanup 60 ex_now [''agent1''] (Add (Update ex_now [''x''] ex_rc) newAgentStore))
       ''agent1'' = None
   \<and> IsAlive 60 ex_now (Update 0 [''x''] ex_rc) = True
   \<and> agents (Cleanup 60 ex_now [''agent1''] (Add (Update 0 [''x''] ex_rc) newAgentStore))
       ''agent1'' = Some (Update 0 [''x''] ex_rc)"
  by (simp add: IsAlive_def Seconds_def Update_def ex_now_def Cleanup_def Add_def
      newAgentStore_def ex_rc_def newRegisteredClient_def)

section \<open>Selection by tags\<close>

lemma tags_loop_iff: "tags_loop tags s \<longleftrightarrow> s \<in> set tags"
  by (induction tags) auto

lemma HasTag_iff: "HasTag c s \<longleftrightarrow> s \<in> set (Tags c)"
  by (auto simp: HasTag_def tags_loop_iff)

lemma excluded_loop_iff: "excluded_loop agent excl \<longleftrightarrow> (\<exists>tag\<in>set excl. HasTag agent tag)"
  by (induction excl) (auto simp: Let_def)

lemma match_loop_iff: "match_loop agent incl \<longleftrightarrow> (\<forall>tag\<in>set incl. HasTag agent tag)"
  by (induction incl) auto

lemma set_List_loop:
  "set (List_loop m ks incl excl) =
     {agent. \<exists>k\<in>set ks. m k = Some agent \<and> selected incl excl agent}"
proof (induction ks)
  case Nil
  then show ?case by simp
next
  case (Cons k ks)
  show ?case
  proof (cases "m k")
    case None
    then show ?thesis using Cons by auto
  next
    case (Some agent)
    then show ?thesis
      using Cons
      by (auto simp: Let_def excluded_loop_iff match_loop_iff HasTag_iff selected_def)
  qed
qed

text \<open>Every entry the loop visits contributes at most one agent to the result.\<close>

lemma length_List_loop:
  "length (List_loop m ks incl excl) =
     length (filter (\<lambda>k. case m k of None \<Rightarrow> False | Some agent \<Rightarrow> selected incl excl agent) ks)"
proof (induction ks)
  case Nil
  then show ?case by simp
next
  case (Cons k ks)
  then show ?case
    by (cases "m k")
      (auto simp: Let_def excluded_loop_iff match_loop_iff HasTag_iff selected_def)
qed

text \<open>
  C6. Whatever order the loop takes over the registered agents, \<^verbatim>\<open>List\<close> returns
  exactly the registered agents that the two tag lists select: those with every tag of
  \<open>incl\<close> and no tag of \<open>excl\<close>, where an empty list constrains nothing.
\<close>

theorem List_agents_exact:
  assumes "set ks = dom (agents a)"
  shows "set (List_agents a ks incl excl) =
           {agent \<in> ran (agents a). selected incl excl agent}"
  using assms by (auto simp: List_agents_def set_List_loop ran_def dom_def)

text \<open>
  The theorem at the tag filter scenario: including x and excluding z returns \<open>a\<close> and
  \<open>b\<close> and not \<open>c\<close>.
\<close>

theorem List_agents_exact_witness:
  "set [''c'', ''a'', ''b''] = dom (agents ex_tagged)
   \<and> Update 0 [''x'', ''y''] (newRegisteredClient ''a'')
        \<in> set (List_agents ex_tagged [''c'', ''a'', ''b''] [''x''] [''z''])
   \<and> Update 0 [''x''] (newRegisteredClient ''b'')
        \<in> set (List_agents ex_tagged [''c'', ''a'', ''b''] [''x''] [''z''])
   \<and> Update 0 [''y'', ''z''] (newRegisteredClient ''c'')
        \<notin> set (List_agents ex_tagged [''c'', ''a'', ''b''] [''x''] [''z''])"
proof -
  have d: "set [''c'', ''a'', ''b''] = dom (agents ex_tagged)"
    by (auto simp: ex_tagged_def Add_def newAgentStore_def Update_def newRegisteredClient_def)
  have a: "agents ex_tagged ''a'' = Some (Update 0 [''x'', ''y''] (newRegisteredClient ''a''))"
    and b: "agents ex_tagged ''b'' = Some (Update 0 [''x''] (newRegisteredClient ''b''))"
    by (simp_all add: ex_tagged_def Add_def newAgentStore_def Update_def newRegisteredClient_def)
  have sa: "selected [''x''] [''z''] (Update 0 [''x'', ''y''] (newRegisteredClient ''a''))"
    and sb: "selected [''x''] [''z''] (Update 0 [''x''] (newRegisteredClient ''b''))"
    and sc: "\<not> selected [''x''] [''z''] (Update 0 [''y'', ''z''] (newRegisteredClient ''c''))"
    by (simp_all add: selected_def Update_def newRegisteredClient_def)
  note eq = List_agents_exact [where incl = "[''x'']" and excl = "[''z'']", OF d]
  have "Update 0 [''x'', ''y''] (newRegisteredClient ''a'')
        \<in> set (List_agents ex_tagged [''c'', ''a'', ''b''] [''x''] [''z''])"
    unfolding eq using ranI [of "agents ex_tagged" "''a''", OF a] sa by simp
  moreover have "Update 0 [''x''] (newRegisteredClient ''b'')
        \<in> set (List_agents ex_tagged [''c'', ''a'', ''b''] [''x''] [''z''])"
    unfolding eq using ranI [of "agents ex_tagged" "''b''", OF b] sb by simp
  moreover have "Update 0 [''y'', ''z''] (newRegisteredClient ''c'')
        \<notin> set (List_agents ex_tagged [''c'', ''a'', ''b''] [''x''] [''z''])"
    unfolding eq using sc by simp
  ultimately show ?thesis using d by blast
qed

section \<open>Abort\<close>

lemma abort_loop_lookup:
  "abort_loop h reqId ks m k =
     (case m k of
        None \<Rightarrow> None
      | Some cmd \<Rightarrow> if k \<in> set ks \<and> ConsensusRequestId (h cmd) = reqId then None else Some cmd)"
proof (induction ks arbitrary: m)
  case Nil
  then show ?case by (simp split: option.split)
next
  case (Cons k0 ks)
  show ?case
    by (cases "m k0") (auto simp: Cons split: option.split)
qed

lemma abort_all_loop_lookup:
  "distinct ks \<Longrightarrow>
   abort_all_loop h req cks ks m k =
     (if k \<in> set ks then map_option (AbortExecution h req (cks k)) (m k) else m k)"
proof (induction ks arbitrary: m)
  case Nil
  then show ?case by simp
next
  case (Cons k0 ks)
  then show ?case
    by (cases "m k0") auto
qed

text \<open>
  C8. When the loop visits all dispatched commands of a client, \<^verbatim>\<open>AbortExecution\<close>
  deletes exactly the entries whose command belongs to the request and leaves every
  other entry, and the pending map, as they were. \<^verbatim>\<open>AbortConsensusExecution\<close> replaces
  every registered agent by the result of \<^verbatim>\<open>AbortExecution\<close> on it.
\<close>

theorem AbortExecution_exact:
  "(set ks = dom (DispatchedCmds c) \<longrightarrow>
      (\<forall>k. DispatchedCmds (AbortExecution h req ks c) k =
          (case DispatchedCmds c k of
             None \<Rightarrow> None
           | Some cmd \<Rightarrow> if ConsensusRequestId (h cmd) = Id_req req then None else Some cmd))
      \<and> Cmds (AbortExecution h req ks c) = Cmds c)
   \<and> (set aks = dom (agents a) \<and> distinct aks \<longrightarrow>
      (\<forall>k. agents (AbortConsensusExecution h req cks aks a) k =
          map_option (AbortExecution h req (cks k)) (agents a k)))"
proof (intro conjI impI allI)
  fix k
  assume "set ks = dom (DispatchedCmds c)"
  then show "DispatchedCmds (AbortExecution h req ks c) k =
          (case DispatchedCmds c k of
             None \<Rightarrow> None
           | Some cmd \<Rightarrow> if ConsensusRequestId (h cmd) = Id_req req then None else Some cmd)"
    by (auto simp: AbortExecution_def abort_loop_lookup split: option.split)
next
  show "Cmds (AbortExecution h req ks c) = Cmds c"
    by (simp add: AbortExecution_def)
next
  fix k
  assume "set aks = dom (agents a) \<and> distinct aks"
  then show "agents (AbortConsensusExecution h req cks aks a) k =
          map_option (AbortExecution h req (cks k)) (agents a k)"
    by (auto simp: AbortConsensusExecution_def abort_all_loop_lookup)
qed

text \<open>
  The theorem at a client with one command of request \<open>req1\<close> and one of \<open>req2\<close>:
  aborting \<open>req1\<close> deletes the first and keeps the second.
\<close>

theorem AbortExecution_exact_witness:
  "set [''id2'', ''id1''] = dom (DispatchedCmds ex_rc_two)
   \<and> DispatchedCmds (AbortExecution ex_heap \<lparr>Id_req = ''req1''\<rparr> [''id2'', ''id1''] ex_rc_two)
       ''id1'' = None
   \<and> DispatchedCmds (AbortExecution ex_heap \<lparr>Id_req = ''req1''\<rparr> [''id2'', ''id1''] ex_rc_two)
       ''id2'' = Some 1
   \<and> set [''agent1''] = dom (agents (Add ex_rc_two newAgentStore)) \<and> distinct [''agent1'']
   \<and> agents (AbortConsensusExecution ex_heap \<lparr>Id_req = ''req1''\<rparr> (\<lambda>k. [''id2'', ''id1''])
         [''agent1''] (Add ex_rc_two newAgentStore)) ''agent1''
       = Some (AbortExecution ex_heap \<lparr>Id_req = ''req1''\<rparr> [''id2'', ''id1''] ex_rc_two)"
proof -
  have d: "set [''id2'', ''id1''] = dom (DispatchedCmds ex_rc_two)"
    by (auto simp: ex_rc_two_def Submit_def Let_def ex_heap_def ex_cmd_def ex_rc_def
        newRegisteredClient_def)
  have v: "DispatchedCmds ex_rc_two ''id1'' = Some 0" "DispatchedCmds ex_rc_two ''id2'' = Some 1"
    "ConsensusRequestId (ex_heap 0) = ''req1''" "ConsensusRequestId (ex_heap (Suc 0)) = ''req2''"
    by (simp_all add: ex_rc_two_def Submit_def Let_def ex_heap_def ex_cmd_def ex_rc_def
        newRegisteredClient_def)
  have a: "set [''agent1''] = dom (agents (Add ex_rc_two newAgentStore)) \<and> distinct [''agent1'']"
    by (simp add: Add_def newAgentStore_def ex_rc_two_def Submit_def Let_def ex_rc_def
        newRegisteredClient_def)
  have a2: "agents (Add ex_rc_two newAgentStore) ''agent1'' = Some ex_rc_two"
    by (simp add: Add_def newAgentStore_def ex_rc_two_def Submit_def Let_def ex_rc_def
        newRegisteredClient_def)
  note inst = AbortExecution_exact [of "[''id2'', ''id1'']" ex_rc_two ex_heap "\<lparr>Id_req = ''req1''\<rparr>" "[''agent1'']"
                 "Add ex_rc_two newAgentStore" "\<lambda>k. [''id2'', ''id1'']"]
  from inst d have one: "\<And>k. DispatchedCmds
      (AbortExecution ex_heap \<lparr>Id_req = ''req1''\<rparr> [''id2'', ''id1''] ex_rc_two) k =
          (case DispatchedCmds ex_rc_two k of
             None \<Rightarrow> None
           | Some cmd \<Rightarrow> if ConsensusRequestId (ex_heap cmd) = Id_req \<lparr>Id_req = ''req1''\<rparr>
               then None else Some cmd)"
    by blast
  from inst a have all: "\<And>k. agents (AbortConsensusExecution ex_heap \<lparr>Id_req = ''req1''\<rparr>
         (\<lambda>k. [''id2'', ''id1'']) [''agent1''] (Add ex_rc_two newAgentStore)) k =
       map_option (AbortExecution ex_heap \<lparr>Id_req = ''req1''\<rparr> [''id2'', ''id1''])
         (agents (Add ex_rc_two newAgentStore) k)"
    by blast
  have "DispatchedCmds (AbortExecution ex_heap \<lparr>Id_req = ''req1''\<rparr> [''id2'', ''id1''] ex_rc_two)
       ''id1'' = None"
    by (simp add: one v)
  moreover have "DispatchedCmds
      (AbortExecution ex_heap \<lparr>Id_req = ''req1''\<rparr> [''id2'', ''id1''] ex_rc_two) ''id2'' = Some 1"
    by (simp add: one v)
  moreover have "agents (AbortConsensusExecution ex_heap \<lparr>Id_req = ''req1''\<rparr>
         (\<lambda>k. [''id2'', ''id1'']) [''agent1''] (Add ex_rc_two newAgentStore)) ''agent1''
       = Some (AbortExecution ex_heap \<lparr>Id_req = ''req1''\<rparr> [''id2'', ''id1''] ex_rc_two)"
    by (simp add: all a2)
  ultimately show ?thesis using d a by blast
qed

section \<open>Submit and the long poll\<close>


section \<open>After the long poll\<close>























end
